theory Spec2Isabelle
  imports Main "HOL-Library.Word"
begin

unbundle bit_operations_syntax

section \<open>The byte source\<close>

text \<open>
  \<^verbatim>\<open>File\<close> is the Arduino SD library's file object; \<^verbatim>\<open>wave.cpp\<close> uses only
  \<^verbatim>\<open>f.read()\<close>, which returns the next byte (0..255) or -1 at end of data.  The
  model keeps the bytes not yet delivered and counts the calls made, so that "how many
  reads happened" can be stated.
\<close>

record File =
  pending :: "8 word list"
  calls :: nat

definition File_read :: "File \<Rightarrow> int \<times> File" where
  "File_read f =
     (case pending f of
        [] \<Rightarrow> (- 1, f\<lparr>calls := Suc (calls f)\<rparr>)
      | b # bs \<Rightarrow> (uint b, f\<lparr>pending := bs, calls := Suc (calls f)\<rparr>))"

section \<open>Local data of wave.cpp\<close>

record hdr_t =
  hdr_id :: "8 word list"
  hdr_len :: "32 word"

record chunk_t =
  chunk_hdr :: hdr_t
  chunk_fmt :: "8 word list"

record fmtValue_t =
  audioFormat :: "16 word"
  numChannels :: "16 word"
  sampleRate :: "32 word"
  byteRate :: "32 word"
  blockAlign :: "16 word"
  bitsPerSample :: "16 word"

datatype idType_t = riff | wave | fmt | data

fun ids :: "idType_t \<Rightarrow> 8 word list" where
  "ids riff = [0x52, 0x49, 0x46, 0x46]"
| "ids wave = [0x57, 0x41, 0x56, 0x45]"
| "ids fmt = [0x66, 0x6D, 0x74, 0x20]"
| "ids data = [0x64, 0x61, 0x74, 0x61]"

text \<open>
  The structs are filled by reading bytes straight into their storage
  (\<^verbatim>\<open>(char *)&hdr\<close>).  They are packed and the target is little-endian, so a field
  is the little-endian value of its bytes.
\<close>

fun le_uint :: "8 word list \<Rightarrow> 'a::len word" where
  "le_uint [] = 0"
| "le_uint (b # bs) = ucast b + 256 * le_uint bs"

definition hdr_of :: "8 word list \<Rightarrow> hdr_t" where
  "hdr_of m = \<lparr>hdr_id = take 4 m, hdr_len = le_uint (take 4 (drop 4 m))\<rparr>"

definition chunk_of :: "8 word list \<Rightarrow> chunk_t" where
  "chunk_of m = \<lparr>chunk_hdr = hdr_of (take 8 m), chunk_fmt = take 4 (drop 8 m)\<rparr>"

definition fmtValue_of :: "8 word list \<Rightarrow> fmtValue_t" where
  "fmtValue_of m =
     \<lparr>audioFormat = le_uint (take 2 m),
      numChannels = le_uint (take 2 (drop 2 m)),
      sampleRate = le_uint (take 4 (drop 4 m)),
      byteRate = le_uint (take 4 (drop 8 m)),
      blockAlign = le_uint (take 2 (drop 12 m)),
      bitsPerSample = le_uint (take 2 (drop 14 m))\<rparr>"

text \<open>
  The configured sample rate.  \<^verbatim>\<open>wave.cpp\<close> names it \<^verbatim>\<open>Config::SAMPLE_RATE\<close>;
  config.h gives its value as \<^verbatim>\<open>CONFIG_MIDIMIKE_SAMPLE_RATE\<close>, 9615.
\<close>

definition SAMPLE_RATE :: "32 word" where
  "SAMPLE_RATE = 9615"

section \<open>The read primitive\<close>

text \<open>
  \<^verbatim>\<open>_readBytes(f, len, offset, data)\<close>: the loop
  \<^verbatim>\<open>for (uint16_t ii = 0; ii < len; ii++)\<close> with its state: the counter \<open>ii\<close>, the
  file, and the destination.  A destination is \<open>None\<close> for \<^verbatim>\<open>NULL\<close>, or the
  caller's storage together with the write position \<^verbatim>\<open>buf\<close>.  The stored value is
  \<^verbatim>\<open>d + offset\<close> converted to \<^verbatim>\<open>char\<close>, that is, reduced to 8 bits.  A write past
  the end of the storage is undefined in C; the list update leaves the list as it is
  there, and the theorems below assume the storage is large enough.
\<close>

function readBytes_loop ::
  "16 word \<Rightarrow> 16 word \<Rightarrow> 16 word \<Rightarrow> File \<Rightarrow> (8 word list \<times> nat) option
     \<Rightarrow> 8 word \<times> File \<times> (8 word list \<times> nat) option" where
  "readBytes_loop len offset ii f buf =
     (if ii < len then
        (case File_read f of (d, f') \<Rightarrow>
           if d < 0 then (1, f', buf)
           else readBytes_loop len offset (ii + 1) f'
                  (case buf of
                     None \<Rightarrow> None
                   | Some (m, p) \<Rightarrow> Some (m[p := word_of_int (d + sint offset)], Suc p)))
      else (0, f, buf))"
  by pat_completeness auto
termination
proof (relation "measure (\<lambda>(len, offset, ii, f, buf). unat len - unat ii)")
  show "wf (measure (\<lambda>(len, offset, ii, f, buf). unat len - unat ii))"
    by simp
next
  fix len offset ii :: "16 word" and f :: File and buf :: "(8 word list \<times> nat) option"
    and x :: "int \<times> File" and d :: int and f' :: File
  assume lt: "ii < len"
  from lt have less: "unat ii < unat len"
    by (simp add: word_less_nat_alt)
  have "unat len < 2 ^ 16"
    using unsigned_less [of len] by simp
  with less have "unat ii + 1 < 2 ^ 16"
    by simp
  then have "unat (ii + 1) = Suc (unat ii)"
    by (simp add: unat_word_ariths)
  with less show "((len, offset, ii + 1, f', case buf of None \<Rightarrow> None
         | Some (m, p) \<Rightarrow> Some (m[p := word_of_int (d + sint offset)], Suc p)),
        (len, offset, ii, f, buf))
       \<in> measure (\<lambda>(len, offset, ii, f, buf). unat len - unat ii)"
    by simp
qed

declare readBytes_loop.simps [simp del]

definition readBytes ::
  "File \<Rightarrow> 16 word \<Rightarrow> 16 word \<Rightarrow> 8 word list option \<Rightarrow> 8 word \<times> File \<times> 8 word list option" where
  "readBytes f len offset dat =
     (case readBytes_loop len offset 0 f (map_option (\<lambda>m. (m, 0)) dat) of
        (r, f', buf) \<Rightarrow> (r, f', map_option fst buf))"

text \<open>The value \<^verbatim>\<open>_readBytes\<close> stores for a delivered byte \<open>b\<close>.\<close>

definition adj :: "16 word \<Rightarrow> 8 word \<Rightarrow> 8 word" where
  "adj offset b = word_of_int (uint b + sint offset)"

section \<open>Wave::readHeader\<close>

text \<open>
  The three blocks of \<^verbatim>\<open>Wave::readHeader\<close>.  \<^verbatim>\<open>*pSampleCnt\<close> is the caller's
  variable: the function takes its value before the call and returns its value after.
  \<^verbatim>\<open>sampleCnt_t\<close> is declared in \<^verbatim>\<open>sample_t.h\<close>, which is not among the sources; it
  is an unsigned integer type whose width is left open here (\<open>'a word\<close>), and the
  assignment \<^verbatim>\<open>*pSampleCnt = hdr.len\<close> converts to it.  The local structs are
  uninitialised storage of 12, 8 and 16 bytes; a successful read overwrites all of it and
  after a failed read it is not looked at (\<^verbatim>\<open>||\<close> stops at the first true operand).
  The length passed to the discarding read, \<^verbatim>\<open>hdr.len - sizeof(fmtValue)\<close>, is a
  32-bit value converted to the \<^verbatim>\<open>uint16_t\<close> parameter \<^verbatim>\<open>len\<close>.
\<close>

definition storage :: "8 word list option \<Rightarrow> 8 word list" where
  "storage dat = (case dat of None \<Rightarrow> [] | Some m \<Rightarrow> m)"

definition readHeader :: "File \<Rightarrow> 'a::len word \<Rightarrow> 8 word \<times> File \<times> 'a word" where
  "readHeader f pSampleCnt =
     (case readBytes f 12 0 (Some (replicate 12 0)) of (r1, f1, m1) \<Rightarrow>
      let chunk = chunk_of (storage m1) in
      if r1 \<noteq> 0 \<or> hdr_id (chunk_hdr chunk) \<noteq> ids riff \<or> chunk_fmt chunk \<noteq> ids wave
      then (1, f1, pSampleCnt)
      else
       (case readBytes f1 8 0 (Some (replicate 8 0)) of (r2, f2, m2) \<Rightarrow>
        let hdr = hdr_of (storage m2) in
        if r2 \<noteq> 0 \<or> hdr_id hdr \<noteq> ids fmt then (2, f2, pSampleCnt)
        else if hdr_len hdr < 16 then (3, f2, pSampleCnt)
        else
         (case readBytes f2 16 0 (Some (replicate 16 0)) of (r3, f3, m3) \<Rightarrow>
          let fmtValue = fmtValue_of (storage m3) in
          if r3 \<noteq> 0 then (3, f3, pSampleCnt)
          else
           (case readBytes f3 (ucast (hdr_len hdr - 16)) 0 None of (r4, f4, m4) \<Rightarrow>
            if r4 \<noteq> 0 then (3, f4, pSampleCnt)
            else if audioFormat fmtValue \<noteq> 1 \<or> numChannels fmtValue \<noteq> 1
                    \<or> bitsPerSample fmtValue \<noteq> 8 \<or> sampleRate fmtValue \<noteq> SAMPLE_RATE
            then (4, f4, pSampleCnt)
            else
             (case readBytes f4 8 0 (Some (replicate 8 0)) of (r5, f5, m5) \<Rightarrow>
              let hdr = hdr_of (storage m5) in
              if r5 \<noteq> 0 \<or> hdr_id hdr \<noteq> ids data then (5, f5, pSampleCnt)
              else (0, f5, ucast (hdr_len hdr)))))))"

section \<open>Wave::readSamples\<close>

text \<open>
  \<^verbatim>\<open>nrOfSamples\<close> has type \<^verbatim>\<open>sampleCnt_t\<close> and is converted to the \<^verbatim>\<open>uint16_t\<close>
  parameter \<^verbatim>\<open>len\<close> of \<^verbatim>\<open>_readBytes\<close>; the offset is \<^verbatim>\<open>SCHAR_MIN\<close>, -128.
\<close>

definition readSamples ::
  "File \<Rightarrow> 'a::len word \<Rightarrow> 8 word list option \<Rightarrow> 8 word \<times> File \<times> 8 word list option" where
  "readSamples f nrOfSamples samples =
     (case readBytes f (ucast nrOfSamples) (- 128) samples of
        (r, f', samples') \<Rightarrow> if r \<noteq> 0 then (1, f', samples') else (0, f', samples'))"

section \<open>Notions used in the statements\<close>

text \<open>
  The condition under which the four checks of \<^verbatim>\<open>Wave::readHeader\<close> on the format
  descriptor all pass (the negation of the condition that returns 4).
\<close>

definition profile_ok :: "fmtValue_t \<Rightarrow> bool" where
  "profile_ok v \<longleftrightarrow>
     audioFormat v = 1 \<and> numChannels v = 1 \<and> bitsPerSample v = 8 \<and> sampleRate v = SAMPLE_RATE"

text \<open>
  Every call of \<^verbatim>\<open>f.read()\<close> either delivers one pending byte or reports end of
  data, so between a file state and a later one the calls that reported end of data are
  the calls made minus the bytes delivered.
\<close>

definition eof_reads :: "File \<Rightarrow> File \<Rightarrow> nat" where
  "eof_reads f f' = (calls f' + length (pending f')) - (calls f + length (pending f))"

text \<open>
  A descriptor used in the examples: PCM (1), one channel, 9615 Hz, byte rate 9615,
  block align 1, 8 bits per sample, each field little-endian.
\<close>

definition pcm_descriptor :: "8 word list" where
  "pcm_descriptor = [1, 0, 1, 0, 0x8F, 0x25, 0, 0, 0x8F, 0x25, 0, 0, 1, 0, 8, 0]"

section \<open>The read loop\<close>

lemma word16_succ: "ii < len \<Longrightarrow> unat (ii + 1) = Suc (unat ii)" for ii len :: "16 word"
proof -
  assume lt: "ii < len"
  have "unat ii < unat len"
    using lt by (simp add: word_less_nat_alt)
  moreover have "unat len < 2 ^ 16"
    using unsigned_less [of len] by simp
  ultimately have "unat ii + 1 < 2 ^ 16"
    by simp
  then show ?thesis
    by (simp add: unat_word_ariths)
qed

lemma File_read_Cons: "pending f = b # bs \<Longrightarrow> File_read f = (uint b, f\<lparr>pending := bs, calls := Suc (calls f)\<rparr>)"
  by (simp add: File_read_def)

lemma File_read_Nil: "pending f = [] \<Longrightarrow> File_read f = (- 1, f\<lparr>calls := Suc (calls f)\<rparr>)"
  by (simp add: File_read_def)

lemma loop_done: "\<not> ii < len \<Longrightarrow> readBytes_loop len offset ii f buf = (0, f, buf)"
  by (simp add: readBytes_loop.simps)

lemma loop_step:
  assumes "ii < len" and "pending f = b # bs"
  shows "readBytes_loop len offset ii f buf =
         readBytes_loop len offset (ii + 1) (f\<lparr>pending := bs, calls := Suc (calls f)\<rparr>)
           (case buf of None \<Rightarrow> None | Some (m, p) \<Rightarrow> Some (m[p := adj offset b], Suc p))"
  using assms by (subst readBytes_loop.simps) (simp add: File_read_Cons adj_def split: option.split)

lemma loop_eof:
  assumes "ii < len" and "pending f = []"
  shows "readBytes_loop len offset ii f buf = (1, f\<lparr>calls := Suc (calls f)\<rparr>, buf)"
  using assms by (subst readBytes_loop.simps) (simp add: File_read_Nil)

lemma store_step:
  assumes "p < length m"
  shows "take (Suc p) (m[p := v]) @ ys @ drop (Suc p + n) (m[p := v]) = take p m @ (v # ys) @ drop (p + Suc n) m"
  using assms by (simp add: take_Suc_conv_app_nth)

lemma loop_ok_Some:
  "unat len - unat ii = n \<Longrightarrow> ii \<le> len \<Longrightarrow> n \<le> length (pending f) \<Longrightarrow> p + n \<le> length m \<Longrightarrow>
   readBytes_loop len offset ii f (Some (m, p)) =
     (0, f\<lparr>pending := drop n (pending f), calls := calls f + n\<rparr>,
      Some (take p m @ map (adj offset) (take n (pending f)) @ drop (p + n) m, p + n))"
proof (induction n arbitrary: ii f m p)
  case 0
  then have "\<not> ii < len" by (simp add: word_less_nat_alt word_le_nat_alt)
  then show ?case by (simp add: loop_done)
next
  case (Suc n)
  then have lt: "ii < len" by (simp add: word_less_nat_alt)
  from Suc.prems obtain b bs where pf: "pending f = b # bs" by (cases "pending f") auto
  have s: "unat (ii + 1) = Suc (unat ii)" using lt by (rule word16_succ)
  have le: "ii + 1 \<le> len" using lt s by (simp add: word_less_nat_alt word_le_nat_alt)
  have n: "unat len - unat (ii + 1) = n" using Suc.prems s by simp
  let ?f' = "f\<lparr>pending := bs, calls := Suc (calls f)\<rparr>"
  have len': "n \<le> length (pending ?f')" using Suc.prems pf by simp
  have room: "Suc p + n \<le> length (m[p := adj offset b])" using Suc.prems by simp
  have p: "p < length m" using Suc.prems by simp
  note IH = Suc.IH [OF n le len' room]
  have "readBytes_loop len offset ii f (Some (m, p)) =
        readBytes_loop len offset (ii + 1) ?f' (Some (m[p := adj offset b], Suc p))"
    using loop_step [OF lt pf, of offset "Some (m, p)"] by simp
  also note IH
  finally show ?case
    using store_step [OF p, of "adj offset b" "map (adj offset) (take n bs)" n]
    by (simp add: pf)
qed

lemma loop_ok_None:
  "unat len - unat ii = n \<Longrightarrow> ii \<le> len \<Longrightarrow> n \<le> length (pending f) \<Longrightarrow>
   readBytes_loop len offset ii f None =
     (0, f\<lparr>pending := drop n (pending f), calls := calls f + n\<rparr>, None)"
proof (induction n arbitrary: ii f)
  case 0
  then have "\<not> ii < len" by (simp add: word_less_nat_alt word_le_nat_alt)
  then show ?case by (simp add: loop_done)
next
  case (Suc n)
  then have lt: "ii < len" by (simp add: word_less_nat_alt)
  from Suc.prems obtain b bs where pf: "pending f = b # bs" by (cases "pending f") auto
  have s: "unat (ii + 1) = Suc (unat ii)" using lt by (rule word16_succ)
  have le: "ii + 1 \<le> len" using lt s by (simp add: word_less_nat_alt word_le_nat_alt)
  have n: "unat len - unat (ii + 1) = n" using Suc.prems s by simp
  let ?f' = "f\<lparr>pending := bs, calls := Suc (calls f)\<rparr>"
  have len': "n \<le> length (pending ?f')" using Suc.prems pf by simp
  note IH = Suc.IH [OF n le len']
  have "readBytes_loop len offset ii f None = readBytes_loop len offset (ii + 1) ?f' None"
    using loop_step [OF lt pf, of offset None] by simp
  also note IH
  finally show ?case
    by (simp add: pf)
qed

lemma loop_short_Some:
  "length (pending f) = k \<Longrightarrow> k < unat len - unat ii \<Longrightarrow> p + k \<le> length m \<Longrightarrow>
   readBytes_loop len offset ii f (Some (m, p)) =
     (1, f\<lparr>pending := [], calls := calls f + k + 1\<rparr>,
      Some (take p m @ map (adj offset) (pending f) @ drop (p + k) m, p + k))"
proof (induction k arbitrary: ii f m p)
  case 0
  then have lt: "ii < len" by (simp add: word_less_nat_alt)
  from 0 have pf: "pending f = []" by simp
  show ?case using loop_eof [OF lt pf, of offset "Some (m, p)"] pf by simp
next
  case (Suc k)
  then have lt: "ii < len" by (simp add: word_less_nat_alt)
  from Suc.prems obtain b bs where pf: "pending f = b # bs" by (cases "pending f") auto
  have s: "unat (ii + 1) = Suc (unat ii)" using lt by (rule word16_succ)
  let ?f' = "f\<lparr>pending := bs, calls := Suc (calls f)\<rparr>"
  have k: "length (pending ?f') = k" using Suc.prems pf by simp
  have n: "k < unat len - unat (ii + 1)" using Suc.prems s by simp
  have room: "Suc p + k \<le> length (m[p := adj offset b])" using Suc.prems by simp
  have p: "p < length m" using Suc.prems by simp
  note IH = Suc.IH [OF k n room]
  have "readBytes_loop len offset ii f (Some (m, p)) =
        readBytes_loop len offset (ii + 1) ?f' (Some (m[p := adj offset b], Suc p))"
    using loop_step [OF lt pf, of offset "Some (m, p)"] by simp
  also note IH
  finally show ?case
    using store_step [OF p, of "adj offset b" "map (adj offset) bs" k]
    by (simp add: pf)
qed

lemma loop_short_None:
  "length (pending f) = k \<Longrightarrow> k < unat len - unat ii \<Longrightarrow>
   readBytes_loop len offset ii f None = (1, f\<lparr>pending := [], calls := calls f + k + 1\<rparr>, None)"
proof (induction k arbitrary: ii f)
  case 0
  then have lt: "ii < len" by (simp add: word_less_nat_alt)
  from 0 have pf: "pending f = []" by simp
  show ?case using loop_eof [OF lt pf, of offset None] pf by simp
next
  case (Suc k)
  then have lt: "ii < len" by (simp add: word_less_nat_alt)
  from Suc.prems obtain b bs where pf: "pending f = b # bs" by (cases "pending f") auto
  have s: "unat (ii + 1) = Suc (unat ii)" using lt by (rule word16_succ)
  let ?f' = "f\<lparr>pending := bs, calls := Suc (calls f)\<rparr>"
  have k: "length (pending ?f') = k" using Suc.prems pf by simp
  have n: "k < unat len - unat (ii + 1)" using Suc.prems s by simp
  note IH = Suc.IH [OF k n]
  have "readBytes_loop len offset ii f None = readBytes_loop len offset (ii + 1) ?f' None"
    using loop_step [OF lt pf, of offset None] by simp
  also note IH
  finally show ?case
    by (simp add: pf)
qed

lemma readBytes_ok_Some:
  assumes "unat len \<le> length (pending f)" and "unat len \<le> length m"
  shows "readBytes f len offset (Some m) =
     (0, f\<lparr>pending := drop (unat len) (pending f), calls := calls f + unat len\<rparr>,
      Some (map (adj offset) (take (unat len) (pending f)) @ drop (unat len) m))"
  using assms loop_ok_Some [of len 0 "unat len" f 0 m offset]
  by (simp add: readBytes_def)

lemma readBytes_ok_None:
  assumes "unat len \<le> length (pending f)"
  shows "readBytes f len offset None =
     (0, f\<lparr>pending := drop (unat len) (pending f), calls := calls f + unat len\<rparr>, None)"
  using assms loop_ok_None [of len 0 "unat len" f offset]
  by (simp add: readBytes_def)

lemma readBytes_short_Some:
  assumes "length (pending f) < unat len" and "length (pending f) \<le> length m"
  shows "readBytes f len offset (Some m) =
     (1, f\<lparr>pending := [], calls := calls f + length (pending f) + 1\<rparr>,
      Some (map (adj offset) (pending f) @ drop (length (pending f)) m))"
  using assms loop_short_Some [of f "length (pending f)" len 0 0 m offset]
  by (simp add: readBytes_def)

lemma readBytes_short_None:
  assumes "length (pending f) < unat len"
  shows "readBytes f len offset None =
     (1, f\<lparr>pending := [], calls := calls f + length (pending f) + 1\<rparr>, None)"
  using assms loop_short_None [of f "length (pending f)" len 0 offset]
  by (simp add: readBytes_def)

lemma sint_adj_bias: "sint (adj (- 128) b) = uint b - 128"
proof -
  have "0 \<le> uint b" by simp
  moreover have "uint b < 256" using uint_lt2p [of b] by simp
  ultimately have stb: "signed_take_bit 7 (uint b - 128) = uint b - 128"
    by (intro signed_take_bit_int_eq_self) simp_all
  have gen: "sint (word_of_int k :: 8 word) = signed_take_bit 7 k" for k
    by (simp add: sint_sbintrunc')
  have "adj (- 128) b = word_of_int (uint b - 128)"
    by (simp add: adj_def)
  then show ?thesis
    by (simp only: gen stb)
qed

lemma bias_covers_signed_range:
  assumes "- 128 \<le> v" and "v \<le> 127"
  shows "sint (adj (- 128) (word_of_int (v + 128))) = v"
proof -
  have byte: "uint (word_of_int k :: 8 word) = k" if "0 \<le> k" and "k < 256" for k
    using that by (simp add: uint_word_of_int take_bit_int_eq_self)
  have "uint (word_of_int (v + 128) :: 8 word) = v + 128"
    using assms by (intro byte) simp_all
  then show ?thesis
    by (simp only: sint_adj_bias)
qed

lemma adj_zero: "adj 0 b = b"
  by (simp add: adj_def)

lemma unat_ucast16: "unat n < 2 ^ 16 \<Longrightarrow> unat (ucast n :: 16 word) = unat n" for n :: "'a::len word"
  by (simp add: unsigned_ucast_eq take_bit_nat_eq_self)

lemma loop_file_indep:
  "fst (readBytes_loop len offset ii f buf) = fst (readBytes_loop len offset ii f None) \<and>
   fst (snd (readBytes_loop len offset ii f buf)) = fst (snd (readBytes_loop len offset ii f None))"
proof (induction len offset ii f buf rule: readBytes_loop.induct)
  case (1 len offset ii f buf)
  show ?case
  proof (cases "ii < len")
    case False
    then show ?thesis by (simp add: loop_done)
  next
    case True
    show ?thesis
    proof (cases "pending f")
      case Nil
      then show ?thesis using True by (simp add: loop_eof)
    next
      case (Cons b bs)
      have r: "File_read f = (uint b, f\<lparr>pending := bs, calls := Suc (calls f)\<rparr>)"
        using Cons by (rule File_read_Cons)
      have "\<not> uint b < 0" by simp
      note IH = "1.IH" [OF True r [symmetric] this]
      show ?thesis
        using IH loop_step [OF True Cons, of offset buf] loop_step [OF True Cons, of offset None]
        by (cases buf) (simp_all add: adj_def)
    qed
  qed
qed

lemma readBytes_file_indep:
  "fst (readBytes f len offset dat) = fst (readBytes f len offset None) \<and>
   fst (snd (readBytes f len offset dat)) = fst (snd (readBytes f len offset None))"
  using loop_file_indep [of len offset 0 f "map_option (\<lambda>m. (m, 0)) dat"]
  by (auto simp: readBytes_def split: prod.splits)

lemma readBytes_zero: "readBytes f 0 offset dat = (0, f, dat)"
  by (cases dat) (simp_all add: readBytes_def loop_done)

lemma map_adj_zero: "map (adj 0) xs = xs"
  by (simp add: adj_zero cong: map_cong)

lemma readBytes_exact:
  assumes "pending f = xs @ rest" and "length xs = unat len" and "length m = unat len"
  shows "readBytes f len 0 (Some m) = (0, f\<lparr>pending := rest, calls := calls f + unat len\<rparr>, Some xs)"
  using assms readBytes_ok_Some [of len f m 0]
  by (simp add: map_adj_zero)

lemma readBytes_skip_exact:
  assumes "pending f = xs @ rest" and "length xs = unat len"
  shows "readBytes f len offset None = (0, f\<lparr>pending := rest, calls := calls f + unat len\<rparr>, None)"
  using assms readBytes_ok_None [of len f offset]
  by simp

lemma readBytes_conserve:
  assumes "readBytes f len offset dat = (0, f', dat')"
  shows "calls f' + length (pending f') = calls f + length (pending f)"
proof (cases "unat len \<le> length (pending f)")
  case True
  from readBytes_ok_None [OF True, of offset] readBytes_file_indep [of f len offset dat] assms True
  show ?thesis by simp
next
  case False
  then have "length (pending f) < unat len" by simp
  from readBytes_short_None [OF this, of offset] readBytes_file_indep [of f len offset dat] assms
  show ?thesis by simp
qed

section \<open>Claims about Wave::readSamples and the read primitive\<close>

text \<open>
  Claim C9.  For a count of zero, \<^verbatim>\<open>Wave::readSamples\<close> (and the read primitive with
  \<^verbatim>\<open>len = 0\<close>) returns success, makes no call of \<^verbatim>\<open>f.read()\<close> and writes no slot
  of the destination: file and destination come back as they went in, whatever the file
  holds, an exhausted one included, and whether or not a destination is given.
\<close>

theorem readSamples_zero_count: "readBytes f 0 offset dat = (0, f, dat) \<and> readSamples f (0 :: 'a::len word) samples = (0, f, samples)"
  by (simp add: readSamples_def readBytes_zero)

text \<open>
  Counts below 65536.  When the count fits the \<^verbatim>\<open>uint16_t\<close> parameter \<^verbatim>\<open>len\<close> of the
  primitive and the source holds at least \<open>count\<close> bytes, \<^verbatim>\<open>Wave::readSamples\<close> returns
  0 after exactly \<open>count\<close> reads, leaves the source at the byte after them, and slot
  \<open>i < count\<close> of the output holds, read as a signed 8-bit value, the i-th delivered byte
  minus 128, computed without overflow; slots from \<open>count\<close> on keep their contents.  The
  output buffer has room for \<open>count\<close> samples, as the caller must ensure.
\<close>

theorem readSamples_delivers:
  fixes n :: "'a::len word"
  assumes fits: "unat n < 2 ^ 16"
    and avail: "unat n \<le> length (pending f)"
    and room: "unat n \<le> length samples"
  shows "readSamples f n (Some samples) =
           (0, f\<lparr>pending := drop (unat n) (pending f), calls := calls f + unat n\<rparr>,
            Some (map (adj (- 128)) (take (unat n) (pending f)) @ drop (unat n) samples)) \<and>
         (\<forall>i < unat n.
            sint (storage (snd (snd (readSamples f n (Some samples)))) ! i) = uint (pending f ! i) - 128)"
proof -
  have u: "unat (ucast n :: 16 word) = unat n"
    using fits by (rule unat_ucast16)
  have eq: "readSamples f n (Some samples) =
           (0, f\<lparr>pending := drop (unat n) (pending f), calls := calls f + unat n\<rparr>,
            Some (map (adj (- 128)) (take (unat n) (pending f)) @ drop (unat n) samples))"
    using readBytes_ok_Some [of "ucast n" f samples "- 128"] avail room
    by (simp add: readSamples_def u)
  have "sint (storage (snd (snd (readSamples f n (Some samples)))) ! i) = uint (pending f ! i) - 128"
    if "i < unat n" for i
    using that avail by (simp add: eq storage_def nth_append sint_adj_bias)
  with eq show ?thesis by blast
qed

theorem readSamples_delivers_witness:
  "unat (3 :: 16 word) < 2 ^ 16 \<and>
   unat (3 :: 16 word) \<le> length (pending \<lparr>pending = [0, 128, 255, 7], calls = 0\<rparr>) \<and>
   unat (3 :: 16 word) \<le> length [5, 5, 5, 5 :: 8 word] \<and>
   readSamples \<lparr>pending = [0, 128, 255, 7], calls = 0\<rparr> (3 :: 16 word) (Some [5, 5, 5, 5]) =
     (0, \<lparr>pending = [7], calls = 3\<rparr>, Some [- 128, 0, 127, 5])"
  using readSamples_delivers [of "3 :: 16 word" "\<lparr>pending = [0, 128, 255, 7], calls = 0\<rparr>" "[5, 5, 5, 5]"]
  by (simp add: adj_def)

text \<open>
  Counts below 65536, source too short.  When the count fits the \<^verbatim>\<open>uint16_t\<close> parameter
  and the source holds fewer bytes than \<open>count\<close>, \<^verbatim>\<open>Wave::readSamples\<close> returns 1 at
  the first read that reports end of data: the calls made are the available bytes plus
  that one read.  This holds with or without an output buffer.
\<close>

theorem readSamples_truncated:
  fixes n :: "'a::len word"
  assumes fits: "unat n < 2 ^ 16"
    and short: "length (pending f) < unat n"
  shows "fst (readSamples f n samples) = 1 \<and>
         fst (snd (readSamples f n samples)) =
           f\<lparr>pending := [], calls := calls f + length (pending f) + 1\<rparr>"
proof -
  have u: "unat (ucast n :: 16 word) = unat n"
    using fits by (rule unat_ucast16)
  have "readBytes f (ucast n) (- 128) None =
          (1, f\<lparr>pending := [], calls := calls f + length (pending f) + 1\<rparr>, None)"
    using short by (intro readBytes_short_None) (simp add: u)
  with readBytes_file_indep [of f "ucast n" "- 128" samples]
  have "fst (readBytes f (ucast n) (- 128) samples) = 1"
    and "fst (snd (readBytes f (ucast n) (- 128) samples)) =
           f\<lparr>pending := [], calls := calls f + length (pending f) + 1\<rparr>"
    by simp_all
  then show ?thesis
    by (auto simp: readSamples_def split: prod.splits)
qed

theorem readSamples_truncated_witness:
  "unat (3 :: 16 word) < 2 ^ 16 \<and>
   length (pending \<lparr>pending = [0, 128], calls = 0\<rparr>) < unat (3 :: 16 word) \<and>
   fst (readSamples \<lparr>pending = [0, 128], calls = 0\<rparr> (3 :: 16 word) (Some [5, 5, 5])) = 1 \<and>
   fst (snd (readSamples \<lparr>pending = [0, 128], calls = 0\<rparr> (3 :: 16 word) (Some [5, 5, 5]))) =
     \<lparr>pending = [], calls = 3\<rparr>"
  using readSamples_truncated [of "3 :: 16 word" "\<lparr>pending = [0, 128], calls = 0\<rparr>" "Some [5, 5, 5]"]
  by simp

text \<open>
  At any width of \<^verbatim>\<open>sampleCnt_t\<close> the count 65536 reaches the primitive as 0 (at a width
  of 16 bits or less it is the count 0 already): \<^verbatim>\<open>Wave::readSamples\<close> returns 0 without
  a read.
\<close>

lemma readSamples_count_65536:
  "readSamples f (65536 :: 'a::len word) samples = (0, f, samples)"
proof -
  have m: "(2 ^ 16 mod 2 ^ LENGTH('a)) mod 2 ^ 16 = (0 :: nat)"
  proof (cases "LENGTH('a) \<le> 16")
    case True
    then have "(2 :: nat) ^ LENGTH('a) dvd 2 ^ 16"
      by (rule le_imp_power_dvd)
    then have "(2 :: nat) ^ 16 mod 2 ^ LENGTH('a) = 0"
      by (simp only: mod_eq_0_iff_dvd)
    then show ?thesis
      by (simp only: mod_0)
  next
    case False
    then have "(2 :: nat) ^ 16 < 2 ^ LENGTH('a)"
      by (intro power_strict_increasing) simp_all
    then have "(2 :: nat) ^ 16 mod 2 ^ LENGTH('a) = 2 ^ 16"
      by (rule mod_less)
    then show ?thesis
      by (simp only: mod_self)
  qed
  have "(65536 :: 'a word) = of_nat (2 ^ 16)"
    by simp
  then have "unat (65536 :: 'a word) = 2 ^ 16 mod 2 ^ LENGTH('a)"
    by (simp only: unat_of_nat)
  then have "unat (ucast (65536 :: 'a word) :: 16 word) = 0"
    using m by (simp add: unat_of_nat)
  then have "(ucast (65536 :: 'a word) :: 16 word) = 0"
    by (simp only: unat_eq_zero)
  then show ?thesis
    by (simp add: readSamples_def readBytes_zero)
qed



text \<open>
  Claim C10.  When the source delivers \<open>k < len\<close> bytes and then reports end of data, and
  a destination with room for them is given, the read primitive fails having stored the
  offset-adjusted values of those \<open>k\<close> bytes in slots \<open>0 .. k - 1\<close>, in the order
  delivered, and every slot from \<open>k\<close> on is as before.  \<^verbatim>\<open>Wave::readSamples\<close>, which
  calls the primitive with offset -128, leaves the same prefix on truncation.
\<close>

theorem readBytes_partial_prefix:
  fixes n :: "'a::len word"
  assumes k: "length (pending f) = k"
    and short: "k < unat len"
    and room: "k \<le> length m"
  shows "readBytes f len offset (Some m) =
           (1, f\<lparr>pending := [], calls := calls f + k + 1\<rparr>,
            Some (map (adj offset) (pending f) @ drop k m)) \<and>
         (ucast n = len \<longrightarrow>
          readSamples f n (Some m) =
            (1, f\<lparr>pending := [], calls := calls f + k + 1\<rparr>,
             Some (map (adj (- 128)) (pending f) @ drop k m)))"
proof -
  have prim: "readBytes f len off (Some m) =
           (1, f\<lparr>pending := [], calls := calls f + k + 1\<rparr>,
            Some (map (adj off) (pending f) @ drop k m))" for off
    using assms readBytes_short_Some [of f len m off] by simp
  then show ?thesis
    by (auto simp: readSamples_def)
qed

theorem readBytes_partial_prefix_witness:
  "length (pending \<lparr>pending = [0, 255], calls = 0\<rparr>) = 2 \<and> 2 < unat (4 :: 16 word) \<and>
   2 \<le> length [5, 6, 7, 8 :: 8 word] \<and> ucast (4 :: 16 word) = (4 :: 16 word) \<and>
   readBytes \<lparr>pending = [0, 255], calls = 0\<rparr> 4 (- 128) (Some [5, 6, 7, 8]) =
     (1, \<lparr>pending = [], calls = 3\<rparr>, Some [- 128, 127, 7, 8]) \<and>
   readSamples \<lparr>pending = [0, 255], calls = 0\<rparr> (4 :: 16 word) (Some [5, 6, 7, 8]) =
     (1, \<lparr>pending = [], calls = 3\<rparr>, Some [- 128, 127, 7, 8])"
  using readBytes_partial_prefix [of "\<lparr>pending = [0, 255], calls = 0\<rparr>" 2 4 "[5, 6, 7, 8]" "- 128" "4 :: 16 word"]
  by (simp add: adj_def)

section \<open>The path through Wave::readHeader\<close>

lemma hdr_of_append: "length tag = 4 \<Longrightarrow> length l = 4 \<Longrightarrow> hdr_of (tag @ l) = \<lparr>hdr_id = tag, hdr_len = le_uint l\<rparr>"
  by (simp add: hdr_of_def)

lemma chunk_of_append:
  "length tag = 4 \<Longrightarrow> length l = 4 \<Longrightarrow> length t = 4 \<Longrightarrow>
   chunk_of (tag @ l @ t) = \<lparr>chunk_hdr = \<lparr>hdr_id = tag, hdr_len = le_uint l\<rparr>, chunk_fmt = t\<rparr>"
  by (simp add: chunk_of_def hdr_of_def)

lemma length_ids [simp]: "length (ids t) = 4"
  by (cases t) simp_all

lemma length_pcm_descriptor: "length pcm_descriptor = 16"
  by (simp add: pcm_descriptor_def)

lemma profile_pcm_descriptor: "profile_ok (fmtValue_of pcm_descriptor)"
  by (simp add: pcm_descriptor_def profile_ok_def fmtValue_of_def SAMPLE_RATE_def)

lemma readHeader_to_gate:
  fixes c :: "'a::len word"
  assumes bytes: "pending f = ids riff @ outer @ ids wave @ ids fmt @ flen @ desc @ pad @ rest"
    and outer: "length outer = 4"
    and flen: "length flen = 4"
    and desc: "length desc = 16"
    and long: "16 \<le> (le_uint flen :: 32 word)"
    and pad: "length pad = unat (ucast ((le_uint flen :: 32 word) - 16) :: 16 word)"
  shows "readHeader f c =
     (if \<not> profile_ok (fmtValue_of desc)
      then (4, f\<lparr>pending := rest, calls := calls f + 36 + length pad\<rparr>, c)
      else
        (case readBytes (f\<lparr>pending := rest, calls := calls f + 36 + length pad\<rparr>) 8 0
                (Some (replicate 8 0)) of
           (r5, f5, m5) \<Rightarrow>
             if r5 \<noteq> 0 \<or> hdr_id (hdr_of (storage m5)) \<noteq> ids data then (5, f5, c)
             else (0, f5, ucast (hdr_len (hdr_of (storage m5))))))"
proof -
  let ?f1 = "f\<lparr>pending := ids fmt @ flen @ desc @ pad @ rest, calls := calls f + 12\<rparr>"
  let ?f2 = "f\<lparr>pending := desc @ pad @ rest, calls := calls f + 20\<rparr>"
  let ?f3 = "f\<lparr>pending := pad @ rest, calls := calls f + 36\<rparr>"
  let ?f4 = "f\<lparr>pending := rest, calls := calls f + 36 + length pad\<rparr>"
  have s1: "readBytes f 12 0 (Some (replicate 12 0)) = (0, ?f1, Some (ids riff @ outer @ ids wave))"
    using readBytes_exact [of f "ids riff @ outer @ ids wave" "ids fmt @ flen @ desc @ pad @ rest" 12 "replicate 12 0"]
      bytes outer by (simp del: ids.simps)
  have s2: "readBytes ?f1 8 0 (Some (replicate 8 0)) = (0, ?f2, Some (ids fmt @ flen))"
    using readBytes_exact [of ?f1 "ids fmt @ flen" "desc @ pad @ rest" 8 "replicate 8 0"]
      flen by (simp del: ids.simps)
  have s3: "readBytes ?f2 16 0 (Some (replicate 16 0)) = (0, ?f3, Some desc)"
    using readBytes_exact [of ?f2 desc "pad @ rest" 16 "replicate 16 0"]
      desc by simp
  have s4: "readBytes ?f3 (ucast ((le_uint flen :: 32 word) - 16)) 0 None = (0, ?f4, None)"
    using readBytes_skip_exact [of ?f3 pad rest "ucast ((le_uint flen :: 32 word) - 16)" 0]
      pad by simp
  have c1: "chunk_of (ids riff @ outer @ ids wave) =
      \<lparr>chunk_hdr = \<lparr>hdr_id = ids riff, hdr_len = le_uint outer\<rparr>, chunk_fmt = ids wave\<rparr>"
    using outer by (simp add: chunk_of_append del: ids.simps)
  have h2: "hdr_of (ids fmt @ flen) = \<lparr>hdr_id = ids fmt, hdr_len = le_uint flen\<rparr>"
    using flen by (simp add: hdr_of_append del: ids.simps)
  have nl: "\<not> (le_uint flen :: 32 word) < 16"
    using long by (simp add: not_less)
  show ?thesis
    unfolding readHeader_def
    by (simp only: s1 s2 s3 s4 c1 h2 nl storage_def profile_ok_def Let_def prod.case option.case
          hdr_t.simps chunk_t.simps simp_thms if_False if_True de_Morgan_conj)
qed

lemma readHeader_too_short:
  fixes c :: "'a::len word"
  assumes bytes: "pending f = ids riff @ outer @ ids wave @ ids fmt @ flen @ tail"
    and outer: "length outer = 4"
    and flen: "length flen = 4"
    and short: "(le_uint flen :: 32 word) < 16"
  shows "readHeader f c = (3, f\<lparr>pending := tail, calls := calls f + 20\<rparr>, c)"
proof -
  let ?f1 = "f\<lparr>pending := ids fmt @ flen @ tail, calls := calls f + 12\<rparr>"
  let ?f2 = "f\<lparr>pending := tail, calls := calls f + 20\<rparr>"
  have s1: "readBytes f 12 0 (Some (replicate 12 0)) = (0, ?f1, Some (ids riff @ outer @ ids wave))"
    using readBytes_exact [of f "ids riff @ outer @ ids wave" "ids fmt @ flen @ tail" 12 "replicate 12 0"]
      bytes outer by (simp del: ids.simps)
  have s2: "readBytes ?f1 8 0 (Some (replicate 8 0)) = (0, ?f2, Some (ids fmt @ flen))"
    using readBytes_exact [of ?f1 "ids fmt @ flen" tail 8 "replicate 8 0"]
      flen by (simp del: ids.simps)
  have c1: "chunk_of (ids riff @ outer @ ids wave) =
      \<lparr>chunk_hdr = \<lparr>hdr_id = ids riff, hdr_len = le_uint outer\<rparr>, chunk_fmt = ids wave\<rparr>"
    using outer by (simp add: chunk_of_append del: ids.simps)
  have h2: "hdr_of (ids fmt @ flen) = \<lparr>hdr_id = ids fmt, hdr_len = le_uint flen\<rparr>"
    using flen by (simp add: hdr_of_append del: ids.simps)
  show ?thesis
    unfolding readHeader_def
    by (simp only: s1 s2 c1 h2 short storage_def Let_def prod.case option.case
          hdr_t.simps chunk_t.simps simp_thms if_False if_True)
qed

lemma readHeader_trailing_short:
  fixes c :: "'a::len word"
  assumes bytes: "pending f = ids riff @ outer @ ids wave @ ids fmt @ flen @ desc @ tail"
    and outer: "length outer = 4"
    and flen: "length flen = 4"
    and desc: "length desc = 16"
    and long: "16 \<le> (le_uint flen :: 32 word)"
    and short: "length tail < unat (ucast ((le_uint flen :: 32 word) - 16) :: 16 word)"
  shows "readHeader f c = (3, f\<lparr>pending := [], calls := calls f + 36 + length tail + 1\<rparr>, c)"
proof -
  let ?f1 = "f\<lparr>pending := ids fmt @ flen @ desc @ tail, calls := calls f + 12\<rparr>"
  let ?f2 = "f\<lparr>pending := desc @ tail, calls := calls f + 20\<rparr>"
  let ?f3 = "f\<lparr>pending := tail, calls := calls f + 36\<rparr>"
  let ?f4 = "f\<lparr>pending := [], calls := calls f + 36 + length tail + 1\<rparr>"
  have s1: "readBytes f 12 0 (Some (replicate 12 0)) = (0, ?f1, Some (ids riff @ outer @ ids wave))"
    using readBytes_exact [of f "ids riff @ outer @ ids wave" "ids fmt @ flen @ desc @ tail" 12 "replicate 12 0"]
      bytes outer by (simp del: ids.simps)
  have s2: "readBytes ?f1 8 0 (Some (replicate 8 0)) = (0, ?f2, Some (ids fmt @ flen))"
    using readBytes_exact [of ?f1 "ids fmt @ flen" "desc @ tail" 8 "replicate 8 0"]
      flen by (simp del: ids.simps)
  have s3: "readBytes ?f2 16 0 (Some (replicate 16 0)) = (0, ?f3, Some desc)"
    using readBytes_exact [of ?f2 desc tail 16 "replicate 16 0"]
      desc by simp
  have s4: "readBytes ?f3 (ucast ((le_uint flen :: 32 word) - 16)) 0 None = (1, ?f4, None)"
    using readBytes_short_None [of ?f3 "ucast ((le_uint flen :: 32 word) - 16)" 0]
      short by simp
  have c1: "chunk_of (ids riff @ outer @ ids wave) =
      \<lparr>chunk_hdr = \<lparr>hdr_id = ids riff, hdr_len = le_uint outer\<rparr>, chunk_fmt = ids wave\<rparr>"
    using outer by (simp add: chunk_of_append del: ids.simps)
  have h2: "hdr_of (ids fmt @ flen) = \<lparr>hdr_id = ids fmt, hdr_len = le_uint flen\<rparr>"
    using flen by (simp add: hdr_of_append del: ids.simps)
  have nl: "\<not> (le_uint flen :: 32 word) < 16"
    using long by (simp add: not_less)
  have one: "(1 :: 8 word) \<noteq> 0"
    by simp
  show ?thesis
    unfolding readHeader_def
    by (simp only: s1 s2 s3 s4 c1 h2 nl one storage_def Let_def prod.case option.case
          hdr_t.simps chunk_t.simps simp_thms if_False if_True)
qed

lemma unat_skip_len:
  fixes L :: "32 word"
  assumes "16 \<le> L" and "unat L - 16 < 2 ^ 16"
  shows "unat (ucast (L - 16) :: 16 word) = unat L - 16"
proof -
  have "unat (L - 16) = unat L - unat (16 :: 32 word)"
    using assms(1) by (rule unat_sub)
  then have "unat (L - 16) = unat L - 16" by simp
  with assms(2) show ?thesis
    by (simp add: unat_ucast16)
qed

lemma unat_skip_len_mod:
  fixes L :: "32 word"
  assumes "16 \<le> L"
  shows "unat (ucast (L - 16) :: 16 word) = (unat L - 16) mod 65536"
proof -
  have "unat (L - 16) = unat L - unat (16 :: 32 word)"
    using assms by (rule unat_sub)
  then have "unat (L - 16) = unat L - 16"
    by simp
  then show ?thesis
    by (simp add: unsigned_ucast_eq take_bit_eq_mod)
qed

lemma readHeader_accepts:
  fixes c :: "'a::len word"
  assumes bytes: "pending f =
      ids riff @ outer @ ids wave @ ids fmt @ flen @ desc @ pad @ ids data @ dlen @ rest"
    and outer: "length outer = 4"
    and flen: "length flen = 4"
    and desc: "length desc = 16"
    and dlen: "length dlen = 4"
    and long: "16 \<le> (le_uint flen :: 32 word)"
    and small: "unat (le_uint flen :: 32 word) - 16 < 2 ^ 16"
    and pad: "length pad = unat (le_uint flen :: 32 word) - 16"
    and prof: "profile_ok (fmtValue_of desc)"
  shows "readHeader f c =
     (0, f\<lparr>pending := rest, calls := calls f + 44 + length pad\<rparr>, ucast (le_uint dlen :: 32 word))"
proof -
  let ?f4 = "f\<lparr>pending := ids data @ dlen @ rest, calls := calls f + 36 + length pad\<rparr>"
  have pad': "length pad = unat (ucast ((le_uint flen :: 32 word) - 16) :: 16 word)"
    using pad unat_skip_len [OF long small] by simp
  have s5: "readBytes ?f4 8 0 (Some (replicate 8 0)) =
      (0, f\<lparr>pending := rest, calls := calls f + 44 + length pad\<rparr>, Some (ids data @ dlen))"
    using readBytes_exact [of ?f4 "ids data @ dlen" rest 8 "replicate 8 0"] dlen
    by (simp del: ids.simps)
  have h5: "hdr_of (ids data @ dlen) = \<lparr>hdr_id = ids data, hdr_len = le_uint dlen\<rparr>"
    using dlen by (simp add: hdr_of_append del: ids.simps)
  show ?thesis
    unfolding readHeader_to_gate [OF bytes outer flen desc long pad']
    by (simp only: prof s5 h5 storage_def prod.case option.case hdr_t.simps simp_thms if_False if_True)
qed

lemma readHeader_codes: "fst (readHeader f c) \<in> {0, 1, 2, 3, 4, 5}"
  by (auto simp: readHeader_def Let_def split: prod.splits if_splits)

lemma readHeader_no_eof:
  assumes ok: "fst (readHeader f c) = 0 \<or> fst (readHeader f c) = 4"
  shows "eof_reads f (fst (snd (readHeader f c))) = 0"
proof -
  obtain r1 f1 m1 where s1: "readBytes f 12 0 (Some (replicate 12 0)) = (r1, f1, m1)"
    by (metis prod_cases3)
  obtain r2 f2 m2 where s2: "readBytes f1 8 0 (Some (replicate 8 0)) = (r2, f2, m2)"
    by (metis prod_cases3)
  obtain r3 f3 m3 where s3: "readBytes f2 16 0 (Some (replicate 16 0)) = (r3, f3, m3)"
    by (metis prod_cases3)
  obtain r4 f4 m4 where
    s4: "readBytes f3 (ucast (hdr_len (hdr_of (storage m2)) - 16)) 0 None = (r4, f4, m4)"
    by (metis prod_cases3)
  obtain r5 f5 m5 where s5: "readBytes f4 8 0 (Some (replicate 8 0)) = (r5, f5, m5)"
    by (metis prod_cases3)
  note unf = readHeader_def s1 s2 s3 s4 s5 Let_def prod.case
  have z1: "r1 = 0"
    using ok by (simp add: unf split: if_splits)
  have z2: "r2 = 0"
    using ok z1 by (simp add: unf split: if_splits)
  have z3: "r3 = 0"
    using ok z1 z2 by (simp add: unf split: if_splits)
  have z4: "r4 = 0"
    using ok z1 z2 z3 by (simp add: unf split: if_splits)
  have k4: "calls f4 + length (pending f4) = calls f + length (pending f)"
    using readBytes_conserve [OF s1 [unfolded z1]] readBytes_conserve [OF s2 [unfolded z2]]
      readBytes_conserve [OF s3 [unfolded z3]] readBytes_conserve [OF s4 [unfolded z4]]
    by simp
  have "fst (snd (readHeader f c)) = f4 \<or> (r5 = 0 \<and> fst (snd (readHeader f c)) = f5)"
    using ok z1 z2 z3 z4 by (auto simp: unf split: if_splits)
  then show ?thesis
  proof
    assume "fst (snd (readHeader f c)) = f4"
    with k4 show ?thesis by (simp add: eof_reads_def)
  next
    assume a: "r5 = 0 \<and> fst (snd (readHeader f c)) = f5"
    then have "calls f5 + length (pending f5) = calls f4 + length (pending f4)"
      using readBytes_conserve [of f4 8 0 "Some (replicate 8 0)" f5 m5] s5 by simp
    with k4 a show ?thesis by (simp add: eof_reads_def)
  qed
qed

section \<open>Claims about Wave::readHeader\<close>

text \<open>
  Accepted containers.  For every byte source that begins with "RIFF", any four bytes as
  outer length, "WAVE"; a "fmt " chunk whose declared length is between 16 and 65551, with
  a descriptor of audio format 1, one channel, 8 bits per sample and the configured sample
  rate, followed by declared length - 16 further bytes; and a "data" chunk header;
  \<^verbatim>\<open>Wave::readHeader\<close> returns 0, stores the data chunk's declared length, converted to
  \<^verbatim>\<open>sampleCnt_t\<close>, in \<^verbatim>\<open>*pSampleCnt\<close>, and has read exactly the header bytes: the source
  is left at the first sample byte.  The outer length is not looked at.  The example is a
  container with three samples.
\<close>

theorem readHeader_valid_container:
  fixes c :: "'a::len word"
  assumes bytes: "pending f =
      ids riff @ outer @ ids wave @ ids fmt @ flen @ desc @ pad @ ids data @ dlen @ rest"
    and outer: "length outer = 4"
    and flen: "length flen = 4"
    and desc: "length desc = 16"
    and dlen: "length dlen = 4"
    and long: "16 \<le> (le_uint flen :: 32 word)"
    and small: "(le_uint flen :: 32 word) \<le> 65551"
    and pad: "length pad = unat (le_uint flen :: 32 word) - 16"
    and prof: "audioFormat (fmtValue_of desc) = 1" "numChannels (fmtValue_of desc) = 1"
      "bitsPerSample (fmtValue_of desc) = 8" "sampleRate (fmtValue_of desc) = SAMPLE_RATE"
  shows "readHeader f c =
     (0, f\<lparr>pending := rest, calls := calls f + 44 + length pad\<rparr>, ucast (le_uint dlen :: 32 word))"
proof -
  have "unat (le_uint flen :: 32 word) \<le> unat (65551 :: 32 word)"
    using small by (simp only: word_le_nat_alt)
  then have small': "unat (le_uint flen :: 32 word) - 16 < 2 ^ 16"
    by simp
  have "profile_ok (fmtValue_of desc)"
    using prof by (simp add: profile_ok_def)
  then show ?thesis
    by (rule readHeader_accepts [OF bytes outer flen desc dlen long small' pad])
qed

theorem readHeader_valid_container_witness:
  "readHeader
     \<lparr>pending = ids riff @ [0x2F, 0, 0, 0] @ ids wave @ ids fmt @ [16, 0, 0, 0] @ pcm_descriptor @ []
                  @ ids data @ [3, 0, 0, 0] @ [0, 128, 255],
      calls = 0\<rparr> (0 :: 16 word) =
   (0, \<lparr>pending = [0, 128, 255], calls = 44\<rparr>, 3)"
  using readHeader_valid_container [of "\<lparr>pending = ids riff @ [0x2F, 0, 0, 0] @ ids wave @ ids fmt @ [16, 0, 0, 0]
                    @ pcm_descriptor @ [] @ ids data @ [3, 0, 0, 0] @ [0, 128, 255], calls = 0\<rparr>"
      "[0x2F, 0, 0, 0]" "[16, 0, 0, 0]" pcm_descriptor "[]" "[3, 0, 0, 0]" "[0, 128, 255]"
      "0 :: 16 word"]
    profile_pcm_descriptor
  by (simp add: length_pcm_descriptor profile_ok_def)

text \<open>
  Claim C1, at a failing input.  The claim is that \<^verbatim>\<open>Wave::readHeader\<close> returns 0 on
  every valid container of the profile whose "fmt " chunk declares at least 16 bytes, with
  the data chunk's declared length stored and the source left at the first sample.  The
  container below is valid: its "fmt " chunk declares 65552 bytes, the descriptor matches
  the profile, 65536 bytes follow it, and then comes the "data" chunk with three samples.
  \<^verbatim>\<open>Wave::readHeader\<close> returns 5.
\<close>

theorem readHeader_long_fmt_rejected:
  "(16 :: 32 word) \<le> le_uint [0x10, 0, 1, 0] \<and>
   length ([0, 0, 0, 0, 0, 0, 0, 0] @ replicate 65528 (0 :: 8 word)) =
     unat (le_uint [0x10, 0, 1, 0] :: 32 word) - 16 \<and>
   fst (readHeader
     \<lparr>pending = ids riff @ [0, 0, 0, 0] @ ids wave @ ids fmt @ [0x10, 0, 1, 0] @ pcm_descriptor
                  @ ([0, 0, 0, 0, 0, 0, 0, 0] @ replicate 65528 0)
                  @ ids data @ [3, 0, 0, 0] @ [0, 128, 255],
      calls = 0\<rparr> (0 :: 16 word)) = 5"
proof -
  let ?rest = "replicate 65528 (0 :: 8 word) @ ids data @ [3, 0, 0, 0] @ [0, 128, 255]"
  let ?f = "\<lparr>pending = ids riff @ [0, 0, 0, 0] @ ids wave @ ids fmt @ [0x10, 0, 1, 0] @ pcm_descriptor
                  @ ([0, 0, 0, 0, 0, 0, 0, 0] @ replicate 65528 0)
                  @ ids data @ [3, 0, 0, 0] @ [0, 128, 255], calls = 0\<rparr>"
  have L: "(le_uint [0x10, 0, 1, 0] :: 32 word) = 65552"
    by simp
  have g: "readHeader ?f (0 :: 16 word) =
     (case readBytes \<lparr>pending = [0, 0, 0, 0, 0, 0, 0, 0] @ ?rest, calls = 36\<rparr> 8 0
        (Some (replicate 8 0)) of
           (r5, f5, m5) \<Rightarrow>
             if r5 \<noteq> 0 \<or> hdr_id (hdr_of (storage m5)) \<noteq> ids data then (5, f5, 0)
             else (0, f5, ucast (hdr_len (hdr_of (storage m5)))))"
    using readHeader_to_gate [of ?f "[0, 0, 0, 0]" "[0x10, 0, 1, 0]" pcm_descriptor "[]"
        "[0, 0, 0, 0, 0, 0, 0, 0] @ ?rest" "0 :: 16 word"] profile_pcm_descriptor
    by (simp add: length_pcm_descriptor)
  have s5: "readBytes \<lparr>pending = [0, 0, 0, 0, 0, 0, 0, 0] @ ?rest, calls = 36\<rparr> 8 0
        (Some (replicate 8 0)) = (0, \<lparr>pending = ?rest, calls = 44\<rparr>, Some [0, 0, 0, 0, 0, 0, 0, 0])"
    using readBytes_exact [of "\<lparr>pending = [0, 0, 0, 0, 0, 0, 0, 0] @ ?rest, calls = 36\<rparr>"
        "[0, 0, 0, 0, 0, 0, 0, 0]" ?rest 8 "replicate 8 0"]
    by simp
  show ?thesis
    unfolding g s5 by (simp add: storage_def hdr_of_def)
qed

theorem readHeader_long_fmt_rejected_witness:
  "fst (readHeader
     \<lparr>pending = ids riff @ [0, 0, 0, 0] @ ids wave @ ids fmt @ [0x10, 0, 1, 0] @ pcm_descriptor
                  @ ([0, 0, 0, 0, 0, 0, 0, 0] @ replicate 65528 0)
                  @ ids data @ [3, 0, 0, 0] @ [0, 128, 255],
      calls = 0\<rparr> (0 :: 16 word)) \<noteq> 0"
  using readHeader_long_fmt_rejected by simp

text \<open>
  Claim C4, as amended.  On every input whose "fmt " chunk has been read in full (prologue
  and "fmt " tag right, declared length at least 16, the descriptor and the bytes that
  \<^verbatim>\<open>Wave::readHeader\<close> skips after it present), the function returns 4 exactly when at
  least one of the four checks fails: audio format 1, one channel, 8 bits per sample, the
  configured sample rate.  It is the one code for all four, and when it is returned the
  file stands after the "fmt " chunk and \<^verbatim>\<open>*pSampleCnt\<close> is as before.
\<close>

theorem readHeader_profile_gate:
  fixes c :: "'a::len word"
  assumes bytes: "pending f = ids riff @ outer @ ids wave @ ids fmt @ flen @ desc @ pad @ rest"
    and outer: "length outer = 4"
    and flen: "length flen = 4"
    and desc: "length desc = 16"
    and long: "16 \<le> (le_uint flen :: 32 word)"
    and pad: "length pad = unat (ucast ((le_uint flen :: 32 word) - 16) :: 16 word)"
  shows "(fst (readHeader f c) = 4 \<longleftrightarrow>
            audioFormat (fmtValue_of desc) \<noteq> 1 \<or> numChannels (fmtValue_of desc) \<noteq> 1 \<or>
            bitsPerSample (fmtValue_of desc) \<noteq> 8 \<or> sampleRate (fmtValue_of desc) \<noteq> SAMPLE_RATE) \<and>
         (fst (readHeader f c) = 4 \<longrightarrow>
            readHeader f c = (4, f\<lparr>pending := rest, calls := calls f + 36 + length pad\<rparr>, c))"
  unfolding readHeader_to_gate [OF bytes outer flen desc long pad]
  by (auto simp: profile_ok_def split: prod.splits)

theorem readHeader_profile_gate_witness:
  "fst (readHeader
     \<lparr>pending = ids riff @ [0, 0, 0, 0] @ ids wave @ ids fmt @ [16, 0, 0, 0]
                  @ [1, 0, 2, 0, 0x8F, 0x25, 0, 0, 0x8F, 0x25, 0, 0, 1, 0, 8, 0] @ []
                  @ ids data @ [3, 0, 0, 0] @ [0, 128, 255],
      calls = 0\<rparr> (9 :: 16 word)) = 4 \<and>
   readHeader
     \<lparr>pending = ids riff @ [0, 0, 0, 0] @ ids wave @ ids fmt @ [16, 0, 0, 0]
                  @ [1, 0, 2, 0, 0x8F, 0x25, 0, 0, 0x8F, 0x25, 0, 0, 1, 0, 8, 0] @ []
                  @ ids data @ [3, 0, 0, 0] @ [0, 128, 255],
      calls = 0\<rparr> (9 :: 16 word) =
   (4, \<lparr>pending = ids data @ [3, 0, 0, 0] @ [0, 128, 255], calls = 36\<rparr>, 9)"
  using readHeader_profile_gate [of "\<lparr>pending = ids riff @ [0, 0, 0, 0] @ ids wave @ ids fmt @ [16, 0, 0, 0]
                  @ [1, 0, 2, 0, 0x8F, 0x25, 0, 0, 0x8F, 0x25, 0, 0, 1, 0, 8, 0] @ []
                  @ ids data @ [3, 0, 0, 0] @ [0, 128, 255], calls = 0\<rparr>"
      "[0, 0, 0, 0]" "[16, 0, 0, 0]" "[1, 0, 2, 0, 0x8F, 0x25, 0, 0, 0x8F, 0x25, 0, 0, 1, 0, 8, 0]"
      "[]" "ids data @ [3, 0, 0, 0] @ [0, 128, 255]" "9 :: 16 word"]
  by (simp add: fmtValue_of_def)

text \<open>
  Claim C4 as stated, for every input whose descriptor has been read, fails when the
  bytes after the descriptor run out: the skip comes before the four checks.  Below, the
  "fmt " chunk declares 18 bytes, the descriptor is read and has audio format 2, and one
  byte follows where two are declared; \<^verbatim>\<open>Wave::readHeader\<close> returns 3, not 4.
\<close>

theorem readHeader_trailing_bytes_first:
  "audioFormat (fmtValue_of [2, 0, 1, 0, 0x8F, 0x25, 0, 0, 0x8F, 0x25, 0, 0, 1, 0, 8, 0]) \<noteq> 1 \<and>
   readHeader
     \<lparr>pending = ids riff @ [0, 0, 0, 0] @ ids wave @ ids fmt @ [18, 0, 0, 0]
                  @ [2, 0, 1, 0, 0x8F, 0x25, 0, 0, 0x8F, 0x25, 0, 0, 1, 0, 8, 0] @ [0xAA],
      calls = 0\<rparr> (9 :: 16 word) =
   (3, \<lparr>pending = [], calls = 38\<rparr>, 9)"
  using readHeader_trailing_short [of
      "\<lparr>pending = ids riff @ [0, 0, 0, 0] @ ids wave @ ids fmt @ [18, 0, 0, 0]
                  @ [2, 0, 1, 0, 0x8F, 0x25, 0, 0, 0x8F, 0x25, 0, 0, 1, 0, 8, 0] @ [0xAA],
        calls = 0\<rparr>"
      "[0, 0, 0, 0]" "[18, 0, 0, 0]" "[2, 0, 1, 0, 0x8F, 0x25, 0, 0, 0x8F, 0x25, 0, 0, 1, 0, 8, 0]"
      "[0xAA]" "9 :: 16 word"]
  by (simp add: fmtValue_of_def)

text \<open>
  The length of the "fmt " chunk.  After a valid prologue and "fmt " tag,
  \<^verbatim>\<open>Wave::readHeader\<close> returns 3 when the declared length is below 16, without reading
  further.  When the declared length is above 16 and at most 65551 and the source supplies
  the descriptor, the declared length - 16 trailing bytes and a "data" chunk header, the
  trailing bytes are read and discarded and the parse succeeds; the result holds nothing of
  them.  The examples declare 15 and 18 bytes.
\<close>

theorem readHeader_fmt_length:
  fixes c :: "'a::len word"
  assumes bytes: "pending f = ids riff @ outer @ ids wave @ ids fmt @ flen @ tail"
    and outer: "length outer = 4"
    and flen: "length flen = 4"
  shows "((le_uint flen :: 32 word) < 16 \<longrightarrow>
            readHeader f c = (3, f\<lparr>pending := tail, calls := calls f + 20\<rparr>, c)) \<and>
         (16 < (le_uint flen :: 32 word) \<and> (le_uint flen :: 32 word) \<le> 65551 \<and>
          tail = desc @ pad @ ids data @ dlen @ rest \<and> length desc = 16 \<and>
          length pad = unat (le_uint flen :: 32 word) - 16 \<and> length dlen = 4 \<and>
          profile_ok (fmtValue_of desc) \<longrightarrow>
            readHeader f c =
              (0, f\<lparr>pending := rest, calls := calls f + 44 + length pad\<rparr>,
               ucast (le_uint dlen :: 32 word)))"
proof (intro conjI impI)
  assume "(le_uint flen :: 32 word) < 16"
  then show "readHeader f c = (3, f\<lparr>pending := tail, calls := calls f + 20\<rparr>, c)"
    by (rule readHeader_too_short [OF bytes outer flen])
next
  assume a: "16 < (le_uint flen :: 32 word) \<and> (le_uint flen :: 32 word) \<le> 65551 \<and>
          tail = desc @ pad @ ids data @ dlen @ rest \<and> length desc = 16 \<and>
          length pad = unat (le_uint flen :: 32 word) - 16 \<and> length dlen = 4 \<and>
          profile_ok (fmtValue_of desc)"
  then have long: "16 \<le> (le_uint flen :: 32 word)"
    using less_imp_le by blast
  from a have "unat (le_uint flen :: 32 word) \<le> unat (65551 :: 32 word)"
    by (simp only: word_le_nat_alt)
  then have small: "unat (le_uint flen :: 32 word) - 16 < 2 ^ 16"
    by simp
  from a bytes have bytes': "pending f =
      ids riff @ outer @ ids wave @ ids fmt @ flen @ desc @ pad @ ids data @ dlen @ rest"
    by simp
  from a show "readHeader f c =
              (0, f\<lparr>pending := rest, calls := calls f + 44 + length pad\<rparr>,
               ucast (le_uint dlen :: 32 word))"
    by (intro readHeader_accepts [OF bytes' outer flen _ _ long small]) simp_all
qed

theorem readHeader_fmt_length_witness:
  "readHeader
     \<lparr>pending = ids riff @ [0, 0, 0, 0] @ ids wave @ ids fmt @ [15, 0, 0, 0]
                  @ [1, 0, 1, 0, 0x8F, 0x25, 0, 0, 0x8F, 0x25, 0, 0, 1, 0, 8],
      calls = 0\<rparr> (9 :: 16 word) =
   (3, \<lparr>pending = [1, 0, 1, 0, 0x8F, 0x25, 0, 0, 0x8F, 0x25, 0, 0, 1, 0, 8], calls = 20\<rparr>, 9) \<and>
   readHeader
     \<lparr>pending = ids riff @ [0, 0, 0, 0] @ ids wave @ ids fmt @ [18, 0, 0, 0]
                  @ pcm_descriptor @ [0xAA, 0xBB] @ ids data @ [3, 0, 0, 0] @ [0, 128, 255],
      calls = 0\<rparr> (9 :: 16 word) =
   (0, \<lparr>pending = [0, 128, 255], calls = 46\<rparr>, 3)"
  using readHeader_fmt_length [where f = "\<lparr>pending = ids riff @ [0, 0, 0, 0] @ ids wave @ ids fmt @ [15, 0, 0, 0]
                  @ [1, 0, 1, 0, 0x8F, 0x25, 0, 0, 0x8F, 0x25, 0, 0, 1, 0, 8], calls = 0\<rparr>"
      and outer = "[0, 0, 0, 0]" and flen = "[15, 0, 0, 0]"
      and tail = "[1, 0, 1, 0, 0x8F, 0x25, 0, 0, 0x8F, 0x25, 0, 0, 1, 0, 8]"
      and c = "9 :: 16 word"]
    readHeader_fmt_length [where f = "\<lparr>pending = ids riff @ [0, 0, 0, 0] @ ids wave @ ids fmt @ [18, 0, 0, 0]
                  @ pcm_descriptor @ [0xAA, 0xBB] @ ids data @ [3, 0, 0, 0] @ [0, 128, 255],
              calls = 0\<rparr>"
      and outer = "[0, 0, 0, 0]" and flen = "[18, 0, 0, 0]"
      and tail = "pcm_descriptor @ [0xAA, 0xBB] @ ids data @ [3, 0, 0, 0] @ [0, 128, 255]"
      and desc = pcm_descriptor and pad = "[0xAA, 0xBB]" and dlen = "[3, 0, 0, 0]"
      and rest = "[0, 128, 255]" and c = "9 :: 16 word"]
    profile_pcm_descriptor
  by (simp add: length_pcm_descriptor)

text \<open>
  Claim C5, at a failing input.  The claim is that a "fmt " chunk declaring more than 16
  bytes has its declared length - 16 trailing bytes read and discarded, and the parse
  succeeds, whenever the source supplies them.  Here the chunk declares 65554 bytes and the
  source supplies the 65538 trailing bytes and a "data" chunk after them.
  \<^verbatim>\<open>Wave::readHeader\<close> discards two of them, takes the next eight for the "data" chunk
  header and returns 5, with \<^verbatim>\<open>*pSampleCnt\<close> as before.
\<close>

theorem readHeader_fmt_skip_two:
  "(16 :: 32 word) < le_uint [0x12, 0, 1, 0] \<and>
   length ([0, 0, 0, 0, 0, 0, 0, 0, 0, 0] @ replicate 65528 (0 :: 8 word)) =
     unat (le_uint [0x12, 0, 1, 0] :: 32 word) - 16 \<and>
   readHeader
     \<lparr>pending = ids riff @ [0, 0, 0, 0] @ ids wave @ ids fmt @ [0x12, 0, 1, 0] @ pcm_descriptor
                  @ ([0, 0, 0, 0, 0, 0, 0, 0, 0, 0] @ replicate 65528 0)
                  @ ids data @ [3, 0, 0, 0] @ [0, 128, 255],
      calls = 0\<rparr> (9 :: 16 word) =
   (5, \<lparr>pending = replicate 65528 0 @ ids data @ [3, 0, 0, 0] @ [0, 128, 255], calls = 46\<rparr>, 9)"
proof -
  let ?rest = "replicate 65528 (0 :: 8 word) @ ids data @ [3, 0, 0, 0] @ [0, 128, 255]"
  let ?f = "\<lparr>pending = ids riff @ [0, 0, 0, 0] @ ids wave @ ids fmt @ [0x12, 0, 1, 0] @ pcm_descriptor
                  @ ([0, 0, 0, 0, 0, 0, 0, 0, 0, 0] @ replicate 65528 0)
                  @ ids data @ [3, 0, 0, 0] @ [0, 128, 255], calls = 0\<rparr>"
  have g: "readHeader ?f (9 :: 16 word) =
     (case readBytes \<lparr>pending = [0, 0, 0, 0, 0, 0, 0, 0] @ ?rest, calls = 38\<rparr> 8 0
        (Some (replicate 8 0)) of
           (r5, f5, m5) \<Rightarrow>
             if r5 \<noteq> 0 \<or> hdr_id (hdr_of (storage m5)) \<noteq> ids data then (5, f5, 9)
             else (0, f5, ucast (hdr_len (hdr_of (storage m5)))))"
    using readHeader_to_gate [of ?f "[0, 0, 0, 0]" "[0x12, 0, 1, 0]" pcm_descriptor "[0, 0]"
        "[0, 0, 0, 0, 0, 0, 0, 0] @ ?rest" "9 :: 16 word"] profile_pcm_descriptor
    by (simp add: length_pcm_descriptor)
  have s5: "readBytes \<lparr>pending = [0, 0, 0, 0, 0, 0, 0, 0] @ ?rest, calls = 38\<rparr> 8 0
        (Some (replicate 8 0)) = (0, \<lparr>pending = ?rest, calls = 46\<rparr>, Some [0, 0, 0, 0, 0, 0, 0, 0])"
    using readBytes_exact [of "\<lparr>pending = [0, 0, 0, 0, 0, 0, 0, 0] @ ?rest, calls = 38\<rparr>"
        "[0, 0, 0, 0, 0, 0, 0, 0]" ?rest 8 "replicate 8 0"]
    by simp
  show ?thesis
    unfolding g s5 by (simp add: storage_def hdr_of_def)
qed

theorem readHeader_fmt_skip_two_witness:
  "fst (readHeader
     \<lparr>pending = ids riff @ [0, 0, 0, 0] @ ids wave @ ids fmt @ [0x12, 0, 1, 0] @ pcm_descriptor
                  @ ([0, 0, 0, 0, 0, 0, 0, 0, 0, 0] @ replicate 65528 0)
                  @ ids data @ [3, 0, 0, 0] @ [0, 128, 255],
      calls = 0\<rparr> (9 :: 16 word)) \<noteq> 0"
  using readHeader_fmt_skip_two by simp

text \<open>
  Claim C6, at a failing input.  The "fmt " chunk declares 65552 bytes, so 65536 bytes
  follow the descriptor; here they begin with the bytes of a "data" chunk header of length
  7.  \<^verbatim>\<open>Wave::readHeader\<close> discards none of them: after 44 reads in all it has taken
  those eight bytes for the next chunk header and returns 0 with a sample count of 7.  The
  number of bytes skipped is the 32-bit difference reduced modulo 65536.
\<close>

theorem readHeader_skip_reduced_mod_65536:
  "(le_uint [0x10, 0, 1, 0] :: 32 word) = 65552 \<and>
   length (ids data @ [7, 0, 0, 0] @ replicate 65528 (0 :: 8 word)) = 65552 - 16 \<and>
   readHeader
     \<lparr>pending = ids riff @ [0, 0, 0, 0] @ ids wave @ ids fmt @ [0x10, 0, 1, 0] @ pcm_descriptor
                  @ (ids data @ [7, 0, 0, 0] @ replicate 65528 0)
                  @ ids data @ [3, 0, 0, 0] @ [0, 128, 255],
      calls = 0\<rparr> (9 :: 16 word) =
   (0, \<lparr>pending = replicate 65528 0 @ ids data @ [3, 0, 0, 0] @ [0, 128, 255], calls = 44\<rparr>, 7)"
proof -
  let ?rest = "replicate 65528 (0 :: 8 word) @ ids data @ [3, 0, 0, 0] @ [0, 128, 255]"
  let ?f = "\<lparr>pending = ids riff @ [0, 0, 0, 0] @ ids wave @ ids fmt @ [0x10, 0, 1, 0] @ pcm_descriptor
                  @ (ids data @ [7, 0, 0, 0] @ replicate 65528 0)
                  @ ids data @ [3, 0, 0, 0] @ [0, 128, 255], calls = 0\<rparr>"
  have g: "readHeader ?f (9 :: 16 word) =
     (case readBytes \<lparr>pending = (ids data @ [7, 0, 0, 0]) @ ?rest, calls = 36\<rparr> 8 0
        (Some (replicate 8 0)) of
           (r5, f5, m5) \<Rightarrow>
             if r5 \<noteq> 0 \<or> hdr_id (hdr_of (storage m5)) \<noteq> ids data then (5, f5, 9)
             else (0, f5, ucast (hdr_len (hdr_of (storage m5)))))"
    using readHeader_to_gate [of ?f "[0, 0, 0, 0]" "[0x10, 0, 1, 0]" pcm_descriptor "[]"
        "(ids data @ [7, 0, 0, 0]) @ ?rest" "9 :: 16 word"] profile_pcm_descriptor
    by (simp add: length_pcm_descriptor)
  have s5: "readBytes \<lparr>pending = (ids data @ [7, 0, 0, 0]) @ ?rest, calls = 36\<rparr> 8 0
        (Some (replicate 8 0)) = (0, \<lparr>pending = ?rest, calls = 44\<rparr>, Some (ids data @ [7, 0, 0, 0]))"
    using readBytes_exact [of "\<lparr>pending = (ids data @ [7, 0, 0, 0]) @ ?rest, calls = 36\<rparr>"
        "ids data @ [7, 0, 0, 0]" ?rest 8 "replicate 8 0"]
    by simp
  show ?thesis
    unfolding g s5 by (simp add: storage_def hdr_of_def)
qed

theorem readHeader_skip_reduced_mod_65536_witness:
  "readHeader
     \<lparr>pending = ids riff @ [0, 0, 0, 0] @ ids wave @ ids fmt @ [0x10, 0, 1, 0] @ pcm_descriptor
                  @ (ids data @ [7, 0, 0, 0] @ replicate 65528 0)
                  @ ids data @ [3, 0, 0, 0] @ [0, 128, 255],
      calls = 0\<rparr> (9 :: 16 word) \<noteq>
   (0, \<lparr>pending = [0, 128, 255], calls = 65580\<rparr>, 3)"
  using readHeader_skip_reduced_mod_65536 by simp

text \<open>
  Claim C7.  Whenever \<^verbatim>\<open>Wave::readHeader\<close> returns a nonzero code, \<^verbatim>\<open>*pSampleCnt\<close>
  holds the value it had before the call.
\<close>

theorem readHeader_error_keeps_count:
  "fst (readHeader f c) \<noteq> 0 \<Longrightarrow> snd (snd (readHeader f c)) = c"
  by (auto simp: readHeader_def Let_def split: prod.splits if_splits)

theorem readHeader_error_keeps_count_witness:
  "fst (readHeader \<lparr>pending = [], calls = 0\<rparr> (7 :: 16 word)) \<noteq> 0 \<and>
   snd (snd (readHeader \<lparr>pending = [], calls = 0\<rparr> (7 :: 16 word))) = 7"
proof -
  have r: "readBytes \<lparr>pending = [], calls = 0\<rparr> 12 0 (Some (replicate 12 0)) =
           (1, \<lparr>pending = [], calls = 1\<rparr>, Some (replicate 12 0))"
    using readBytes_short_Some [of "\<lparr>pending = [], calls = 0\<rparr>" 12 "replicate 12 0" 0] by simp
  have h: "fst (readHeader \<lparr>pending = [], calls = 0\<rparr> (7 :: 16 word)) \<noteq> 0"
    by (simp add: readHeader_def r)
  from h readHeader_error_keeps_count [OF h] show ?thesis by simp
qed

text \<open>
  Claim C8, as amended.  When the byte source runs out while \<^verbatim>\<open>Wave::readHeader\<close> is
  reading (some call of \<^verbatim>\<open>f.read()\<close> reports end of data), the function returns one of
  1, 2, 3 and 5: the codes it returns for a structural mismatch in the prologue, the "fmt "
  tag, the "fmt " length and the "data" tag.  It has no code of its own for an exhausted
  source.
\<close>

theorem readHeader_exhausted_codes:
  assumes "0 < eof_reads f (fst (snd (readHeader f c)))"
  shows "fst (readHeader f c) \<in> {1, 2, 3, 5}"
  using assms readHeader_no_eof [of f c] readHeader_codes [of f c]
  by auto

theorem readHeader_exhausted_codes_witness:
  "0 < eof_reads \<lparr>pending = ids riff @ [4, 0, 0, 0] @ ids wave @ [0x66, 0x6D], calls = 0\<rparr>
        (fst (snd (readHeader \<lparr>pending = ids riff @ [4, 0, 0, 0] @ ids wave @ [0x66, 0x6D], calls = 0\<rparr>
           (9 :: 16 word)))) \<and>
   fst (readHeader \<lparr>pending = ids riff @ [4, 0, 0, 0] @ ids wave @ [0x66, 0x6D], calls = 0\<rparr>
           (9 :: 16 word)) \<in> {1, 2, 3, 5}"
proof -
  let ?f = "\<lparr>pending = ids riff @ [4, 0, 0, 0] @ ids wave @ [0x66, 0x6D], calls = 0\<rparr>"
  have s1: "readBytes ?f 12 0 (Some (replicate 12 0)) =
           (0, \<lparr>pending = [0x66, 0x6D], calls = 12\<rparr>, Some (ids riff @ [4, 0, 0, 0] @ ids wave))"
    using readBytes_exact [of ?f "ids riff @ [4, 0, 0, 0] @ ids wave" "[0x66, 0x6D]" 12 "replicate 12 0"]
    by simp
  have s2: "readBytes \<lparr>pending = [0x66, 0x6D], calls = 12\<rparr> 8 0 (Some (replicate 8 0)) =
           (1, \<lparr>pending = [], calls = 15\<rparr>, Some ([0x66, 0x6D] @ replicate 6 0))"
    using readBytes_short_Some [of "\<lparr>pending = [0x66, 0x6D], calls = 12\<rparr>" 8 "replicate 8 0" 0]
    by (simp add: adj_zero)
  have e: "readHeader ?f (9 :: 16 word) = (2, \<lparr>pending = [], calls = 15\<rparr>, 9)"
    unfolding readHeader_def s1 by (simp add: s2 storage_def chunk_of_def hdr_of_def)
  have h: "0 < eof_reads ?f (fst (snd (readHeader ?f (9 :: 16 word))))"
    unfolding e by (simp add: eof_reads_def)
  from h readHeader_exhausted_codes [OF h] show ?thesis by simp
qed

text \<open>
  Claim C8 as stated fails: an empty source and a twelve-byte prologue with a wrong first
  tag both make \<^verbatim>\<open>Wave::readHeader\<close> return 1.
\<close>

theorem readHeader_exhausted_same_code:
  "readHeader \<lparr>pending = [], calls = 0\<rparr> (9 :: 16 word) = (1, \<lparr>pending = [], calls = 1\<rparr>, 9) \<and>
   readHeader \<lparr>pending = [0x58, 0x49, 0x46, 0x46] @ [4, 0, 0, 0] @ ids wave, calls = 0\<rparr> (9 :: 16 word) =
     (1, \<lparr>pending = [], calls = 12\<rparr>, 9)"
proof -
  have r: "readBytes \<lparr>pending = [], calls = 0\<rparr> 12 0 (Some (replicate 12 0)) =
           (1, \<lparr>pending = [], calls = 1\<rparr>, Some (replicate 12 0))"
    using readBytes_short_Some [of "\<lparr>pending = [], calls = 0\<rparr>" 12 "replicate 12 0" 0] by simp
  have s: "readBytes \<lparr>pending = [0x58, 0x49, 0x46, 0x46] @ [4, 0, 0, 0] @ ids wave, calls = 0\<rparr>
              12 0 (Some (replicate 12 0)) =
           (0, \<lparr>pending = [], calls = 12\<rparr>, Some ([0x58, 0x49, 0x46, 0x46] @ [4, 0, 0, 0] @ ids wave))"
    using readBytes_exact [of "\<lparr>pending = [0x58, 0x49, 0x46, 0x46] @ [4, 0, 0, 0] @ ids wave, calls = 0\<rparr>"
          "[0x58, 0x49, 0x46, 0x46] @ [4, 0, 0, 0] @ ids wave" "[]" 12 "replicate 12 0"]
    by simp
  show ?thesis
    unfolding readHeader_def r s by (simp add: storage_def chunk_of_def hdr_of_def)
qed

end
